theory Spec2Isabelle
  imports Main
begin

unbundle bit_operations_syntax

section \<open>The pollers of \<^verbatim>\<open>assay/unix.py\<close>\<close>

text \<open>
  \<^verbatim>\<open>EPoll\<close> and \<^verbatim>\<open>KQueue\<close> keep a dictionary \<^verbatim>\<open>fdmap\<close> from descriptors to
  registered objects and a handle \<^verbatim>\<open>poller\<close> on a kernel multiplexer. The kernel and
  the registered objects are outside the module: the model records every call the
  module makes on them, in order, and takes the kernel's answers from a parameter.
\<close>

subsection \<open>Objects, exceptions, kernel events\<close>

text \<open>
  A registered object is any value with a \<^verbatim>\<open>fileno()\<close> accessor. An object is modelled
  by a label and the descriptor its accessor reports; two objects may report the same
  descriptor.
\<close>

record fobj =
  label :: string
  fileno :: int

text \<open>
  Exceptions by class: \<^verbatim>\<open>IOError\<close> with its \<^verbatim>\<open>errno\<close>, the \<^verbatim>\<open>KeyError\<close> of a
  dictionary with the missing key, and every other class.
\<close>

datatype exc = IOError int | KeyError int | OtherError string

text \<open>\<^verbatim>\<open>select.kevent(ident, filter, flags)\<close>; the other fields keep their defaults.\<close>

record kevent =
  ident :: int
  kfilter :: int
  kflags :: int

text \<open>Constants of the modules \<^verbatim>\<open>errno\<close> and \<^verbatim>\<open>select\<close>, with their platform values.\<close>

definition EINTR :: int where "EINTR = 4"
definition EPOLLIN :: int where "EPOLLIN = 1"
definition KQ_FILTER_READ :: int where "KQ_FILTER_READ = - 1"
definition KQ_EV_ADD :: int where "KQ_EV_ADD = 1"
definition KQ_EV_DELETE :: int where "KQ_EV_DELETE = 2"
definition KQ_EV_ENABLE :: int where "KQ_EV_ENABLE = 4"

subsection \<open>Calls on the outside world\<close>

text \<open>
  \<open>Fileno obj\<close> is \<^verbatim>\<open>obj.fileno()\<close>; the others are the methods of \<^verbatim>\<open>select.epoll\<close>
  and \<^verbatim>\<open>select.kqueue\<close> with their arguments: \<^verbatim>\<open>register(fd, flags)\<close>,
  \<^verbatim>\<open>unregister(fd)\<close>, \<^verbatim>\<open>poll()\<close>, \<^verbatim>\<open>control(changelist, max_events)\<close> (a change list
  \<open>None\<close> is Python's \<^verbatim>\<open>None\<close>) and \<^verbatim>\<open>close()\<close>.
\<close>

datatype call =
    Fileno fobj
  | EpollRegister int int
  | EpollUnregister int
  | EpollPoll
  | KqueueControl "kevent list option" int
  | KqueueClose

text \<open>
  The kernel answers a call from the calls made before it and the call's arguments:
  it raises (\<open>Inl\<close>) or returns (\<open>Inr\<close>).
\<close>

record kernel =
  epoll_register :: "call list \<Rightarrow> int \<Rightarrow> int \<Rightarrow> exc + unit"
  epoll_unregister :: "call list \<Rightarrow> int \<Rightarrow> exc + unit"
  epoll_poll :: "call list \<Rightarrow> exc + (int \<times> int) list"
  kqueue_control :: "call list \<Rightarrow> kevent list option \<Rightarrow> int \<Rightarrow> exc + kevent list"

text \<open>
  The instance: \<^verbatim>\<open>self.fdmap\<close>, and in place of the handle \<^verbatim>\<open>self.poller\<close> the calls
  made so far.
\<close>

record poller =
  fdmap :: "int \<rightharpoonup> fobj"
  calls :: "call list"

definition log :: "call \<Rightarrow> poller \<Rightarrow> poller" where
  "log c self = self\<lparr>calls := calls self @ [c]\<rparr>"

text \<open>\<^verbatim>\<open>del d[k]\<close> raises \<^verbatim>\<open>KeyError\<close> when the key is missing.\<close>

definition del_item :: "(int \<rightharpoonup> 'v) \<Rightarrow> int \<Rightarrow> exc + (int \<rightharpoonup> 'v)" where
  "del_item d k = (case d k of None \<Rightarrow> Inl (KeyError k) | Some _ \<Rightarrow> Inr (d(k := None)))"

text \<open>\<^verbatim>\<open>d[k]\<close> raises \<^verbatim>\<open>KeyError\<close> when the key is missing.\<close>

definition get_item :: "(int \<rightharpoonup> 'v) \<Rightarrow> int \<Rightarrow> exc + 'v" where
  "get_item d k = (case d k of None \<Rightarrow> Inl (KeyError k) | Some v \<Rightarrow> Inr v)"

subsection \<open>\<^verbatim>\<open>EPoll\<close>\<close>

text \<open>\<^verbatim>\<open>__init__\<close>: an empty dictionary and a fresh handle.\<close>

definition EPoll_init :: poller where
  "EPoll_init = \<lparr>fdmap = Map.empty, calls = []\<rparr>"

text \<open>
  \<^verbatim>\<open>register(self, obj, flags=select.EPOLLIN)\<close>: an omitted argument is \<open>None\<close>. The
  dictionary is written before the kernel is called, so it stays written when the
  kernel raises.
\<close>

definition EPoll_register :: "kernel \<Rightarrow> poller \<Rightarrow> fobj \<Rightarrow> int option \<Rightarrow> (exc + unit) \<times> poller" where
  "EPoll_register k self obj flags_arg =
     (let flags = (case flags_arg of None \<Rightarrow> EPOLLIN | Some f \<Rightarrow> f);
          self1 = log (Fileno obj) self;
          fd = fileno obj;
          self2 = self1\<lparr>fdmap := (fdmap self1)(fd \<mapsto> obj)\<rparr>;
          r = epoll_register k (calls self2) fd flags
      in (r, log (EpollRegister fd flags) self2))"

definition EPoll_unregister :: "kernel \<Rightarrow> poller \<Rightarrow> fobj \<Rightarrow> (exc + unit) \<times> poller" where
  "EPoll_unregister k self obj =
     (let self1 = log (Fileno obj) self;
          fd = fileno obj
      in case del_item (fdmap self1) fd of
           Inl e \<Rightarrow> (Inl e, self1)
         | Inr d \<Rightarrow>
             (let self2 = self1\<lparr>fdmap := d\<rparr>;
                  r = epoll_unregister k (calls self2) fd
              in (r, log (EpollUnregister fd) self2)))"

subsection \<open>\<^verbatim>\<open>KQueue\<close>\<close>

definition KQueue_init :: poller where
  "KQueue_init = \<lparr>fdmap = Map.empty, calls = []\<rparr>"

text \<open>The value \<^verbatim>\<open>control\<close> returns is dropped by \<^verbatim>\<open>register\<close> and \<^verbatim>\<open>unregister\<close>.\<close>

definition discard :: "exc + 'a \<Rightarrow> exc + unit" where
  "discard r = (case r of Inl e \<Rightarrow> Inl e | Inr _ \<Rightarrow> Inr ())"

definition KQueue_register :: "kernel \<Rightarrow> poller \<Rightarrow> fobj \<Rightarrow> (exc + unit) \<times> poller" where
  "KQueue_register k self obj =
     (let self1 = log (Fileno obj) self;
          fd = fileno obj;
          self2 = self1\<lparr>fdmap := (fdmap self1)(fd \<mapsto> obj)\<rparr>;
          event = [\<lparr>ident = fd, kfilter = KQ_FILTER_READ, kflags = KQ_EV_ADD OR KQ_EV_ENABLE\<rparr>];
          r = kqueue_control k (calls self2) (Some event) 0
      in (discard r, log (KqueueControl (Some event) 0) self2))"

definition KQueue_unregister :: "kernel \<Rightarrow> poller \<Rightarrow> fobj \<Rightarrow> (exc + unit) \<times> poller" where
  "KQueue_unregister k self obj =
     (let self1 = log (Fileno obj) self;
          fd = fileno obj
      in case del_item (fdmap self1) fd of
           Inl e \<Rightarrow> (Inl e, self1)
         | Inr d \<Rightarrow>
             (let self2 = self1\<lparr>fdmap := d\<rparr>;
                  event = [\<lparr>ident = fd, kfilter = KQ_FILTER_READ, kflags = KQ_EV_DELETE\<rparr>];
                  r = kqueue_control k (calls self2) (Some event) 0
              in (discard r, log (KqueueControl (Some event) 0) self2)))"

subsection \<open>The generators \<^verbatim>\<open>events()\<close>\<close>

text \<open>
  A generator is suspended at its \<^verbatim>\<open>yield\<close> between two calls of \<^verbatim>\<open>next\<close>. Its frame
  holds the part of the list the \<^verbatim>\<open>for\<close> loop has still to visit (empty before the
  first \<^verbatim>\<open>next\<close>), and whether the generator has ended. \<^verbatim>\<open>self.fdmap\<close> is read when
  the loop reaches an event, so a \<^verbatim>\<open>register\<close> or \<^verbatim>\<open>unregister\<close> made between two
  calls of \<^verbatim>\<open>next\<close> is seen by the events still to visit. A caller that stops
  calling \<^verbatim>\<open>next\<close> abandons the generator; a caller throwing into it is not modelled.
\<close>

record 'e gen =
  pending :: "'e list"
  ended :: bool

definition events :: "'e gen" where
  "events = \<lparr>pending = [], ended = False\<rparr>"

text \<open>What \<^verbatim>\<open>next\<close> gives its caller.\<close>

datatype outcome = Yield fobj int | Raise exc | StopIteration

text \<open>
  \<^verbatim>\<open>except IOError as e: if e.errno != errno.EINTR: raise\<close>. The clause stands around
  the whole \<^verbatim>\<open>for\<close> loop: it sees what the poll raises and what the loop body raises.
  \<open>True\<close>: the exception leaves the generator; \<open>False\<close>: it is dropped and the
  \<^verbatim>\<open>while\<close> loop goes on.
\<close>

definition propagates :: "exc \<Rightarrow> bool" where
  "propagates e = (case e of IOError n \<Rightarrow> n \<noteq> EINTR | _ \<Rightarrow> True)"

text \<open>
  One call of \<^verbatim>\<open>next\<close> on \<^verbatim>\<open>EPoll.events()\<close>. The first argument bounds the number of
  loop steps; the outcome \<open>None\<close> is a call that has not come back within the bound
  (the instance and the frame are then the ones reached so far). After the
  \<^verbatim>\<open>while True\<close> loop the function body ends.
\<close>

primrec EPoll_events_next ::
  "nat \<Rightarrow> kernel \<Rightarrow> poller \<Rightarrow> (int \<times> int) gen \<Rightarrow> outcome option \<times> poller \<times> (int \<times> int) gen" where
  "EPoll_events_next 0 k self g = (None, self, g)"
| "EPoll_events_next (Suc n) k self g =
     (if ended g then (Some StopIteration, self, g)
      else case pending g of
        (fd, flags) # rest \<Rightarrow>
          (case get_item (fdmap self) fd of
             Inr obj \<Rightarrow> (Some (Yield obj flags), self, g\<lparr>pending := rest\<rparr>)
           | Inl e \<Rightarrow>
               if propagates e then (Some (Raise e), self, g\<lparr>pending := [], ended := True\<rparr>)
               else EPoll_events_next n k self (g\<lparr>pending := []\<rparr>))
      | [] \<Rightarrow>
          if True then
            (case epoll_poll k (calls self) of
               Inr evs \<Rightarrow> EPoll_events_next n k (log EpollPoll self) (g\<lparr>pending := evs\<rparr>)
             | Inl e \<Rightarrow>
                 if propagates e
                 then (Some (Raise e), log EpollPoll self, g\<lparr>pending := [], ended := True\<rparr>)
                 else EPoll_events_next n k (log EpollPoll self) (g\<lparr>pending := []\<rparr>))
          else (Some StopIteration, self, g\<lparr>ended := True\<rparr>))"

text \<open>
  One call of \<^verbatim>\<open>next\<close> on \<^verbatim>\<open>KQueue.events()\<close>: \<^verbatim>\<open>control(None, max_events=0)\<close>, and
  \<^verbatim>\<open>self.poller.close()\<close> after the \<^verbatim>\<open>while True\<close> loop.
\<close>

primrec KQueue_events_next ::
  "nat \<Rightarrow> kernel \<Rightarrow> poller \<Rightarrow> kevent gen \<Rightarrow> outcome option \<times> poller \<times> kevent gen" where
  "KQueue_events_next 0 k self g = (None, self, g)"
| "KQueue_events_next (Suc n) k self g =
     (if ended g then (Some StopIteration, self, g)
      else case pending g of
        event # rest \<Rightarrow>
          (case get_item (fdmap self) (ident event) of
             Inr obj \<Rightarrow> (Some (Yield obj (kflags event)), self, g\<lparr>pending := rest\<rparr>)
           | Inl e \<Rightarrow>
               if propagates e then (Some (Raise e), self, g\<lparr>pending := [], ended := True\<rparr>)
               else KQueue_events_next n k self (g\<lparr>pending := []\<rparr>))
      | [] \<Rightarrow>
          if True then
            (case kqueue_control k (calls self) None 0 of
               Inr evs \<Rightarrow>
                 KQueue_events_next n k (log (KqueueControl None 0) self) (g\<lparr>pending := evs\<rparr>)
             | Inl e \<Rightarrow>
                 if propagates e
                 then (Some (Raise e), log (KqueueControl None 0) self,
                       g\<lparr>pending := [], ended := True\<rparr>)
                 else KQueue_events_next n k (log (KqueueControl None 0) self) (g\<lparr>pending := []\<rparr>))
          else (Some StopIteration, log KqueueClose self, g\<lparr>ended := True\<rparr>))"

subsection \<open>A caller\<close>

text \<open>
  A caller makes calls on one instance and one generator, in any order, and goes on
  after a call that raised. \<open>Register obj r\<close> is \<^verbatim>\<open>register(obj, ...)\<close> with the further
  arguments \<open>r\<close>, \<open>Unregister obj\<close> is \<^verbatim>\<open>unregister(obj)\<close>, \<open>Next n\<close> is \<^verbatim>\<open>next\<close> on
  the generator within \<open>n\<close> loop steps. The caller's run gives what each \<^verbatim>\<open>next\<close> gave,
  and stops at a \<^verbatim>\<open>next\<close> that has not come back (\<open>None\<close>, then the last entry).
\<close>

datatype 'r action = Register fobj 'r | Unregister fobj | Next nat

fun session ::
  "(poller \<Rightarrow> fobj \<Rightarrow> 'r \<Rightarrow> (exc + unit) \<times> poller) \<Rightarrow> (poller \<Rightarrow> fobj \<Rightarrow> (exc + unit) \<times> poller) \<Rightarrow>
   (nat \<Rightarrow> poller \<Rightarrow> 'g \<Rightarrow> outcome option \<times> poller \<times> 'g) \<Rightarrow>
   poller \<Rightarrow> 'g \<Rightarrow> 'r action list \<Rightarrow> outcome option list \<times> poller \<times> 'g" where
  "session reg unreg nxt self g [] = ([], self, g)"
| "session reg unreg nxt self g (Register obj r # acts) =
     session reg unreg nxt (snd (reg self obj r)) g acts"
| "session reg unreg nxt self g (Unregister obj # acts) =
     session reg unreg nxt (snd (unreg self obj)) g acts"
| "session reg unreg nxt self g (Next n # acts) =
     (case nxt n self g of
        (None, self', g') \<Rightarrow> ([None], self', g')
      | (Some out, self', g') \<Rightarrow>
          (case session reg unreg nxt self' g' acts of
             (outs, end) \<Rightarrow> (Some out # outs, end)))"

text \<open>\<^verbatim>\<open>EPoll.register\<close> takes the optional \<^verbatim>\<open>flags\<close>; \<^verbatim>\<open>KQueue.register\<close> takes nothing more.\<close>

definition EPoll_session ::
  "kernel \<Rightarrow> poller \<Rightarrow> (int \<times> int) gen \<Rightarrow> int option action list
   \<Rightarrow> outcome option list \<times> poller \<times> (int \<times> int) gen" where
  "EPoll_session k =
     session (EPoll_register k) (EPoll_unregister k) (\<lambda>n. EPoll_events_next n k)"

definition KQueue_session ::
  "kernel \<Rightarrow> poller \<Rightarrow> kevent gen \<Rightarrow> unit action list
   \<Rightarrow> outcome option list \<times> poller \<times> kevent gen" where
  "KQueue_session k =
     session (\<lambda>self obj r. KQueue_register k self obj) (KQueue_unregister k)
       (\<lambda>n. KQueue_events_next n k)"

subsection \<open>The specification's words\<close>

text \<open>
  The most recently registered object for a descriptor, in a caller's actions: the
  object of the last \<open>Register\<close> whose object reports that descriptor.
\<close>

fun last_registered :: "'r action list \<Rightarrow> int \<Rightarrow> fobj option" where
  "last_registered [] fd = None"
| "last_registered (a # acts) fd =
     (case last_registered acts fd of
        Some obj \<Rightarrow> Some obj
      | None \<Rightarrow>
          (case a of
             Register obj r \<Rightarrow> if fileno obj = fd then Some obj else None
           | _ \<Rightarrow> None))"

text \<open>The objects whose accessor was called, in the order of the calls.\<close>

primrec fileno_calls :: "call list \<Rightarrow> fobj list" where
  "fileno_calls [] = []"
| "fileno_calls (c # cs) = (case c of Fileno obj \<Rightarrow> obj # fileno_calls cs | _ \<Rightarrow> fileno_calls cs)"

subsection \<open>Concrete objects and kernels\<close>

text \<open>
  Two objects on descriptor 5 and one on descriptor 7; a kernel whose first poll is
  interrupted by a signal and whose later polls report descriptor 5 readable, whatever
  \<^verbatim>\<open>max_events\<close> is.
\<close>

definition obj_a :: fobj where "obj_a = \<lparr>label = ''a'', fileno = 5\<rparr>"
definition obj_b :: fobj where "obj_b = \<lparr>label = ''b'', fileno = 5\<rparr>"
definition obj_c :: fobj where "obj_c = \<lparr>label = ''c'', fileno = 7\<rparr>"

definition kernel_intr :: kernel where
  "kernel_intr =
     \<lparr>epoll_register = (\<lambda>h fd fl. Inr ()),
      epoll_unregister = (\<lambda>h fd. Inr ()),
      epoll_poll = (\<lambda>h. if count_list h EpollPoll = 0 then Inl (IOError EINTR) else Inr [(5, 1)]),
      kqueue_control = (\<lambda>h cl m.
        case cl of
          Some _ \<Rightarrow> Inr []
        | None \<Rightarrow>
            if count_list h (KqueueControl None 0) = 0 then Inl (IOError EINTR)
            else Inr [\<lparr>ident = 5, kfilter = KQ_FILTER_READ, kflags = 1\<rparr>])\<rparr>"

text \<open>
  A kernel whose delete calls fail with \<^verbatim>\<open>ENOENT\<close> (errno 2): \<^verbatim>\<open>epoll.unregister\<close>, and
  \<^verbatim>\<open>kqueue.control\<close> with a \<^verbatim>\<open>KQ_EV_DELETE\<close> change.
\<close>

definition kernel_nodel :: kernel where
  "kernel_nodel =
     \<lparr>epoll_register = (\<lambda>h fd fl. Inr ()),
      epoll_unregister = (\<lambda>h fd. Inl (IOError 2)),
      epoll_poll = (\<lambda>h. Inr []),
      kqueue_control = (\<lambda>h cl m.
        case cl of
          Some [ev] \<Rightarrow> if kflags ev = KQ_EV_DELETE then Inl (IOError 2) else Inr []
        | _ \<Rightarrow> Inr [])\<rparr>"

text \<open>A kernel whose polls fail with \<^verbatim>\<open>EBADF\<close> (errno 9).\<close>

definition kernel_fail :: kernel where
  "kernel_fail =
     \<lparr>epoll_register = (\<lambda>h fd fl. Inr ()),
      epoll_unregister = (\<lambda>h fd. Inr ()),
      epoll_poll = (\<lambda>h. Inl (IOError 9)),
      kqueue_control = (\<lambda>h cl m. case cl of Some _ \<Rightarrow> Inr [] | None \<Rightarrow> Inl (IOError 9))\<rparr>"

text \<open>
  A kernel on which descriptor 5 is always readable and whose \<^verbatim>\<open>control\<close> hands out at
  most \<^verbatim>\<open>max_events\<close> events (a negative \<^verbatim>\<open>max_events\<close> is a \<^verbatim>\<open>ValueError\<close>).
\<close>

definition kernel_capped :: kernel where
  "kernel_capped =
     \<lparr>epoll_register = (\<lambda>h fd fl. Inr ()),
      epoll_unregister = (\<lambda>h fd. Inr ()),
      epoll_poll = (\<lambda>h. Inr [(5, 1)]),
      kqueue_control = (\<lambda>h cl m.
        if m < 0 then Inl (OtherError ''ValueError'')
        else Inr (take (nat m) [\<lparr>ident = 5, kfilter = KQ_FILTER_READ, kflags = 1\<rparr>]))\<rparr>"

section \<open>\<^verbatim>\<open>cpu_count\<close>\<close>

text \<open>
  \<^verbatim>\<open>str.count(sub)\<close> of the Python library: the number of non-overlapping occurrences
  of \<open>sub\<close>, found from left to right (and one more than the length for the empty
  \<open>sub\<close>).
\<close>

function py_count :: "'a list \<Rightarrow> 'a list \<Rightarrow> nat" where
  "py_count s sub =
     (if sub = [] then length s + 1
      else if length s < length sub then 0
      else if take (length sub) s = sub then 1 + py_count (drop (length sub) s) sub
      else py_count (tl s) sub)"
  by pat_completeness auto
termination
proof (relation "measure (\<lambda>(s, sub). length s)")
  fix s sub :: "'a list"
  assume "sub \<noteq> []" "\<not> length s < length sub"
  then have "0 < length sub" "0 < length s" by (cases sub; cases s; simp)+
  then show "((drop (length sub) s, sub), (s, sub)) \<in> measure (\<lambda>(s, sub). length s)"
    and "((tl s, sub), (s, sub)) \<in> measure (\<lambda>(s, sub). length s)"
    by simp_all
qed simp

declare py_count.simps [simp del]

text \<open>
  The specification's words, the number of occurrences of \<open>sub\<close>: the number of
  positions at which \<open>sub\<close> starts.
\<close>

fun occurrences :: "'a list \<Rightarrow> 'a list \<Rightarrow> nat" where
  "occurrences sub [] = (if sub = [] then 1 else 0)"
| "occurrences sub (x # s) = (if take (length sub) (x # s) = sub then 1 else 0) + occurrences sub s"

text \<open>
  The file system, as \<^verbatim>\<open>cpu_count\<close> sees it: \<^verbatim>\<open>os.path.exists(path)\<close>, and
  \<^verbatim>\<open>open(path).read()\<close>, which gives the contents or raises.
\<close>

record fs =
  path_exists :: "string \<Rightarrow> bool"
  open_read :: "string \<Rightarrow> exc + string"

definition cpu_count :: "fs \<Rightarrow> exc + int" where
  "cpu_count fs =
     (if path_exists fs ''/proc/cpuinfo'' then
        (case open_read fs ''/proc/cpuinfo'' of
           Inl e \<Rightarrow> Inl e
         | Inr content \<Rightarrow> Inr (int (py_count content (CHR 0x0A # ''bogomips''))))
      else Inr 2)"

text \<open>A file system with a \<^verbatim>\<open>/proc/cpuinfo\<close> of three processors, and one without the file.\<close>

definition cpuinfo_text :: string where
  "cpuinfo_text =
     ''processor : 0'' @ CHR 0x0A # ''bogomips : 4800.00'' @ CHR 0x0A #
     ''processor : 1'' @ CHR 0x0A # ''bogomips : 4800.00'' @ CHR 0x0A #
     ''processor : 2'' @ CHR 0x0A # ''bogomips : 4800.00'' @ [CHR 0x0A]"

definition fs_linux :: fs where
  "fs_linux =
     \<lparr>path_exists = (\<lambda>p. p = ''/proc/cpuinfo''),
      open_read = (\<lambda>p. if p = ''/proc/cpuinfo'' then Inr cpuinfo_text else Inl (IOError 2))\<rparr>"

definition fs_other :: fs where
  "fs_other = \<lparr>path_exists = (\<lambda>p. False), open_read = (\<lambda>p. Inl (IOError 2))\<rparr>"

section \<open>Theorems\<close>

subsection \<open>Shared lemmas\<close>

lemmas eval_defs =
  EPoll_session_def KQueue_session_def EPoll_register_def EPoll_unregister_def
  KQueue_register_def KQueue_unregister_def EPoll_init_def KQueue_init_def log_def Let_def
  kernel_intr_def obj_a_def obj_b_def obj_c_def del_item_def get_item_def discard_def
  propagates_def events_def

lemma fdmap_log: "fdmap (log c self) = fdmap self"
  by (simp add: log_def)

lemma calls_log: "calls (log c self) = calls self @ [c]"
  by (simp add: log_def)

lemma EPoll_register_fdmap:
  "fdmap (snd (EPoll_register k self obj r)) = (fdmap self)(fileno obj \<mapsto> obj)"
  by (simp add: EPoll_register_def Let_def fdmap_log)

lemma KQueue_register_fdmap:
  "fdmap (snd (KQueue_register k self obj)) = (fdmap self)(fileno obj \<mapsto> obj)"
  by (simp add: KQueue_register_def Let_def fdmap_log)

lemma EPoll_unregister_fdmap:
  "fdmap (snd (EPoll_unregister k self obj)) = (fdmap self)(fileno obj := None)"
  by (auto simp: EPoll_unregister_def Let_def fdmap_log del_item_def split: option.splits)

lemma KQueue_unregister_fdmap:
  "fdmap (snd (KQueue_unregister k self obj)) = (fdmap self)(fileno obj := None)"
  by (auto simp: KQueue_unregister_def Let_def fdmap_log del_item_def split: option.splits)

lemma EPoll_next_fdmap: "fdmap (fst (snd (EPoll_events_next n k self g))) = fdmap self"
  by (induction n arbitrary: self g)
     (auto simp: fdmap_log split: list.splits sum.splits prod.splits)

lemma KQueue_next_fdmap: "fdmap (fst (snd (KQueue_events_next n k self g))) = fdmap self"
  by (induction n arbitrary: self g)
     (auto simp: fdmap_log split: list.splits sum.splits)

lemma EPoll_next_yield:
  "fst (EPoll_events_next n k self g) = Some (Yield obj fl) \<Longrightarrow> \<exists>fd. fdmap self fd = Some obj"
proof (induction n arbitrary: self g)
  case 0
  then show ?case by simp
next
  case (Suc n)
  have step: "\<And>g'. fst (EPoll_events_next n k (log EpollPoll self) g') = Some (Yield obj fl)
      \<Longrightarrow> \<exists>fd. fdmap self fd = Some obj"
    using Suc.IH [of "log EpollPoll self"] by (simp add: fdmap_log)
  from Suc.prems show ?case
    by (auto simp: get_item_def split: list.splits sum.splits prod.splits option.splits if_splits
             dest: step Suc.IH)
qed

lemma KQueue_next_yield:
  "fst (KQueue_events_next n k self g) = Some (Yield obj fl) \<Longrightarrow> \<exists>fd. fdmap self fd = Some obj"
proof (induction n arbitrary: self g)
  case 0
  then show ?case by simp
next
  case (Suc n)
  have step: "\<And>g'. fst (KQueue_events_next n k (log (KqueueControl None 0) self) g') = Some (Yield obj fl)
      \<Longrightarrow> \<exists>fd. fdmap self fd = Some obj"
    using Suc.IH [of "log (KqueueControl None 0) self"] by (simp add: fdmap_log)
  from Suc.prems show ?case
    by (auto simp: get_item_def split: list.splits sum.splits option.splits if_splits
             dest: step Suc.IH)
qed

lemma session_last_registered:
  assumes reg: "\<And>self obj r. fdmap (snd (reg self obj r)) = (fdmap self)(fileno obj \<mapsto> obj)"
    and unreg: "\<And>self obj. fdmap (snd (unreg self obj)) = (fdmap self)(fileno obj := None)"
    and nxt: "\<And>n self g. fdmap (fst (snd (nxt n self g))) = fdmap self"
  shows "session reg unreg nxt self g acts = (outs, self', g') \<Longrightarrow> None \<notin> set outs \<Longrightarrow>
         fdmap self' fd = Some obj \<Longrightarrow>
         last_registered acts fd = Some obj \<or> (last_registered acts fd = None \<and> fdmap self fd = Some obj)"
proof (induction acts arbitrary: self g outs)
  case Nil
  then show ?case by simp
next
  case (Cons a acts)
  show ?case
  proof (cases a)
    case (Register obj' r)
    with Cons have "last_registered acts fd = Some obj \<or>
        (last_registered acts fd = None \<and> fdmap (snd (reg self obj' r)) fd = Some obj)"
      by simp
    then show ?thesis using reg [of self obj' r] Register
      by (auto split: if_splits)
  next
    case (Unregister obj')
    with Cons have "last_registered acts fd = Some obj \<or>
        (last_registered acts fd = None \<and> fdmap (snd (unreg self obj')) fd = Some obj)"
      by simp
    then show ?thesis using unreg [of self obj'] Unregister
      by (auto split: if_splits)
  next
    case (Next n)
    show ?thesis
    proof (cases "nxt n self g")
      case (fields out self1 g1)
      obtain o1 where out: "out = Some o1"
        using Cons.prems(1,2) Next fields by (cases out) auto
      obtain outs1 where rest: "session reg unreg nxt self1 g1 acts = (outs1, self', g')"
        and outs: "outs = Some o1 # outs1"
        using Cons.prems(1) Next fields out by (auto split: prod.splits)
      have "last_registered acts fd = Some obj \<or>
          (last_registered acts fd = None \<and> fdmap self1 fd = Some obj)"
        using Cons.IH [OF rest] Cons.prems(2,3) outs by auto
      moreover have "fdmap self1 = fdmap self"
        using nxt [of n self g] fields by simp
      ultimately show ?thesis using Next by auto
    qed
  qed
qed


lemma EPoll_session_last_registered:
  "EPoll_session k self g acts = (outs, self', g') \<Longrightarrow> None \<notin> set outs \<Longrightarrow>
   fdmap self' fd = Some obj \<Longrightarrow>
   last_registered acts fd = Some obj \<or> (last_registered acts fd = None \<and> fdmap self fd = Some obj)"
  unfolding EPoll_session_def
  by (rule session_last_registered [where nxt = "\<lambda>n. EPoll_events_next n k"])
     (simp_all add: EPoll_register_fdmap EPoll_unregister_fdmap EPoll_next_fdmap)

lemma KQueue_session_last_registered:
  "KQueue_session k self g acts = (outs, self', g') \<Longrightarrow> None \<notin> set outs \<Longrightarrow>
   fdmap self' fd = Some obj \<Longrightarrow>
   last_registered acts fd = Some obj \<or> (last_registered acts fd = None \<and> fdmap self fd = Some obj)"
  unfolding KQueue_session_def
  by (rule session_last_registered [where nxt = "\<lambda>n. KQueue_events_next n k"])
     (simp_all add: KQueue_register_fdmap KQueue_unregister_fdmap KQueue_next_fdmap)

subsection \<open>The claims\<close>

text \<open>
  C1. \<^verbatim>\<open>register(obj)\<close> stores \<open>obj\<close> in the registration map under the descriptor
  \<open>obj\<close> reports, over whatever was there (both backends). After any actions of a caller
  on a new instance, when the loop of \<^verbatim>\<open>events()\<close> reaches a fired event \<open>(fd, fl)\<close>, the
  generator yields \<open>(fdmap[fd], fl)\<close>, and that object is the most recently registered
  object for \<open>fd\<close>; when the map has no entry for \<open>fd\<close> it yields nothing and raises
  \<^verbatim>\<open>KeyError\<close>.
\<close>

theorem C1_events_yield_last_registered:
  "fdmap (snd (EPoll_register k self0 obj0 r)) = (fdmap self0)(fileno obj0 \<mapsto> obj0)
   \<and> fdmap (snd (KQueue_register k self0 obj0)) = (fdmap self0)(fileno obj0 \<mapsto> obj0)
   \<and> (EPoll_session k EPoll_init g0 acts = (outs, self, g) \<longrightarrow> None \<notin> set outs \<longrightarrow>
        \<not> ended g \<longrightarrow> pending g = (fd, fl) # rest \<longrightarrow>
        (case fdmap self fd of
           Some obj \<Rightarrow>
             last_registered acts fd = Some obj
             \<and> EPoll_events_next (Suc n) k self g = (Some (Yield obj fl), self, g\<lparr>pending := rest\<rparr>)
         | None \<Rightarrow> fst (EPoll_events_next (Suc n) k self g) = Some (Raise (KeyError fd))))
   \<and> (KQueue_session k KQueue_init h0 kacts = (kouts, kself, h) \<longrightarrow> None \<notin> set kouts \<longrightarrow>
        \<not> ended h \<longrightarrow> pending h = ev # krest \<longrightarrow>
        (case fdmap kself (ident ev) of
           Some obj \<Rightarrow>
             last_registered kacts (ident ev) = Some obj
             \<and> KQueue_events_next (Suc n) k kself h
                 = (Some (Yield obj (kflags ev)), kself, h\<lparr>pending := krest\<rparr>)
         | None \<Rightarrow> fst (KQueue_events_next (Suc n) k kself h) = Some (Raise (KeyError (ident ev)))))"
proof (intro conjI impI)
  show "fdmap (snd (EPoll_register k self0 obj0 r)) = (fdmap self0)(fileno obj0 \<mapsto> obj0)"
    by (rule EPoll_register_fdmap)
  show "fdmap (snd (KQueue_register k self0 obj0)) = (fdmap self0)(fileno obj0 \<mapsto> obj0)"
    by (rule KQueue_register_fdmap)
next
  assume run: "EPoll_session k EPoll_init g0 acts = (outs, self, g)" and "None \<notin> set outs"
    and g: "\<not> ended g" "pending g = (fd, fl) # rest"
  then have "\<And>obj. fdmap self fd = Some obj \<Longrightarrow> last_registered acts fd = Some obj"
    using EPoll_session_last_registered [of k EPoll_init g0 acts outs self g fd]
    by (auto simp: EPoll_init_def)
  with g show "case fdmap self fd of
           Some obj \<Rightarrow>
             last_registered acts fd = Some obj
             \<and> EPoll_events_next (Suc n) k self g = (Some (Yield obj fl), self, g\<lparr>pending := rest\<rparr>)
         | None \<Rightarrow> fst (EPoll_events_next (Suc n) k self g) = Some (Raise (KeyError fd))"
    by (simp add: get_item_def propagates_def split: option.splits)
next
  assume run: "KQueue_session k KQueue_init h0 kacts = (kouts, kself, h)" and "None \<notin> set kouts"
    and g: "\<not> ended h" "pending h = ev # krest"
  then have "\<And>obj. fdmap kself (ident ev) = Some obj \<Longrightarrow> last_registered kacts (ident ev) = Some obj"
    using KQueue_session_last_registered [of k KQueue_init h0 kacts kouts kself h "ident ev"]
    by (auto simp: KQueue_init_def)
  with g show "case fdmap kself (ident ev) of
           Some obj \<Rightarrow>
             last_registered kacts (ident ev) = Some obj
             \<and> KQueue_events_next (Suc n) k kself h
                 = (Some (Yield obj (kflags ev)), kself, h\<lparr>pending := krest\<rparr>)
         | None \<Rightarrow> fst (KQueue_events_next (Suc n) k kself h) = Some (Raise (KeyError (ident ev)))"
    by (simp add: get_item_def propagates_def split: option.splits)
qed

theorem C1_events_yield_last_registered_witness:
  "last_registered [Register obj_a None, Register obj_b (Some 4), Unregister obj_c] 5 = Some obj_b
   \<and> fst (EPoll_events_next 1 kernel_intr
        (fst (snd (EPoll_session kernel_intr EPoll_init \<lparr>pending = [(5, 1)], ended = False\<rparr>
           [Register obj_a None, Register obj_b (Some 4), Unregister obj_c])))
        \<lparr>pending = [(5, 1)], ended = False\<rparr>) = Some (Yield obj_b 1)
   \<and> fst (KQueue_events_next 1 kernel_intr
        (fst (snd (KQueue_session kernel_intr KQueue_init
           \<lparr>pending = [\<lparr>ident = 5, kfilter = KQ_FILTER_READ, kflags = 1\<rparr>], ended = False\<rparr>
           [Register obj_a (), Register obj_b (), Unregister obj_c])))
        \<lparr>pending = [\<lparr>ident = 5, kfilter = KQ_FILTER_READ, kflags = 1\<rparr>], ended = False\<rparr>)
       = Some (Yield obj_b 1)"
  using C1_events_yield_last_registered
    [where k = kernel_intr and ?g0.0 = "\<lparr>pending = [(5, 1)], ended = False\<rparr>"
       and acts = "[Register obj_a None, Register obj_b (Some 4), Unregister obj_c]"
       and outs = "[]" and g = "\<lparr>pending = [(5, 1)], ended = False\<rparr>"
       and self = "fst (snd (EPoll_session kernel_intr EPoll_init \<lparr>pending = [(5, 1)], ended = False\<rparr>
           [Register obj_a None, Register obj_b (Some 4), Unregister obj_c]))"
       and fd = 5 and fl = 1 and rest = "[]" and n = 0
       and ?h0.0 = "\<lparr>pending = [\<lparr>ident = 5, kfilter = KQ_FILTER_READ, kflags = 1\<rparr>], ended = False\<rparr>"
       and kacts = "[Register obj_a (), Register obj_b (), Unregister obj_c]"
       and kouts = "[]"
       and h = "\<lparr>pending = [\<lparr>ident = 5, kfilter = KQ_FILTER_READ, kflags = 1\<rparr>], ended = False\<rparr>"
       and kself = "fst (snd (KQueue_session kernel_intr KQueue_init
           \<lparr>pending = [\<lparr>ident = 5, kfilter = KQ_FILTER_READ, kflags = 1\<rparr>], ended = False\<rparr>
           [Register obj_a (), Register obj_b (), Unregister obj_c]))"
       and ev = "\<lparr>ident = 5, kfilter = KQ_FILTER_READ, kflags = 1\<rparr>" and krest = "[]"]
  by (simp add: eval_defs)


text \<open>
  C8. \<^verbatim>\<open>EPoll.register\<close> has a \<^verbatim>\<open>flags\<close> parameter whose default is \<^verbatim>\<open>EPOLLIN\<close> and hands
  it to the kernel's \<^verbatim>\<open>register\<close>; \<^verbatim>\<open>KQueue.register\<close> has no such parameter and always
  submits one change event for the object's descriptor with filter \<^verbatim>\<open>KQ_FILTER_READ\<close>
  and flags \<^verbatim>\<open>KQ_EV_ADD | KQ_EV_ENABLE\<close>.
\<close>

theorem C8_register_flags:
  "calls (snd (EPoll_register k self obj (Some f)))
     = calls self @ [Fileno obj, EpollRegister (fileno obj) f]
   \<and> calls (snd (EPoll_register k self obj None))
     = calls self @ [Fileno obj, EpollRegister (fileno obj) EPOLLIN]
   \<and> calls (snd (KQueue_register k self obj))
     = calls self @ [Fileno obj,
         KqueueControl (Some [\<lparr>ident = fileno obj, kfilter = KQ_FILTER_READ,
                                kflags = KQ_EV_ADD OR KQ_EV_ENABLE\<rparr>]) 0]"
  by (simp add: EPoll_register_def KQueue_register_def log_def Let_def)

lemma propagates_iff: "propagates e \<longleftrightarrow> e \<noteq> IOError EINTR"
  by (cases e) (simp_all add: propagates_def)

lemma EPoll_next_not_EINTR: "fst (EPoll_events_next n k self g) \<noteq> Some (Raise (IOError EINTR))"
  by (induction n arbitrary: self g)
     (auto simp: propagates_iff get_item_def split: list.splits sum.splits option.splits)

lemma KQueue_next_not_EINTR: "fst (KQueue_events_next n k self g) \<noteq> Some (Raise (IOError EINTR))"
  by (induction n arbitrary: self g)
     (auto simp: propagates_iff get_item_def split: list.splits sum.splits option.splits)

text \<open>
  C2. When the poll inside \<^verbatim>\<open>events()\<close> raises \<^verbatim>\<open>IOError\<close> with errno \<^verbatim>\<open>EINTR\<close>, the
  generator polls again with nothing given to the caller; no call of \<^verbatim>\<open>next\<close> ever
  raises that interruption; and when the poll after one interruption reports an event
  on a registered descriptor, the same call of \<^verbatim>\<open>next\<close> yields it. Both backends.
\<close>

theorem C2_interrupted_poll_retried:
  "(\<not> ended g \<longrightarrow> pending g = [] \<longrightarrow> epoll_poll k (calls self) = Inl (IOError EINTR) \<longrightarrow>
      EPoll_events_next (Suc n) k self g
        = EPoll_events_next n k (log EpollPoll self) (g\<lparr>pending := []\<rparr>))
   \<and> fst (EPoll_events_next n k self g) \<noteq> Some (Raise (IOError EINTR))
   \<and> (\<not> ended g \<longrightarrow> pending g = [] \<longrightarrow> epoll_poll k (calls self) = Inl (IOError EINTR) \<longrightarrow>
      epoll_poll k (calls self @ [EpollPoll]) = Inr ((fd, fl) # rest) \<longrightarrow>
      fdmap self fd = Some obj \<longrightarrow>
      EPoll_events_next (Suc (Suc (Suc n))) k self g
        = (Some (Yield obj fl), log EpollPoll (log EpollPoll self), g\<lparr>pending := rest\<rparr>))
   \<and> (\<not> ended h \<longrightarrow> pending h = [] \<longrightarrow>
      kqueue_control k (calls self) None 0 = Inl (IOError EINTR) \<longrightarrow>
      KQueue_events_next (Suc n) k self h
        = KQueue_events_next n k (log (KqueueControl None 0) self) (h\<lparr>pending := []\<rparr>))
   \<and> fst (KQueue_events_next n k self h) \<noteq> Some (Raise (IOError EINTR))
   \<and> (\<not> ended h \<longrightarrow> pending h = [] \<longrightarrow>
      kqueue_control k (calls self) None 0 = Inl (IOError EINTR) \<longrightarrow>
      kqueue_control k (calls self @ [KqueueControl None 0]) None 0 = Inr (ev # krest) \<longrightarrow>
      fdmap self (ident ev) = Some obj \<longrightarrow>
      KQueue_events_next (Suc (Suc (Suc n))) k self h
        = (Some (Yield obj (kflags ev)),
           log (KqueueControl None 0) (log (KqueueControl None 0) self), h\<lparr>pending := krest\<rparr>))"
  by (simp add: EPoll_next_not_EINTR KQueue_next_not_EINTR propagates_def log_def get_item_def)

theorem C2_interrupted_poll_retried_witness:
  "EPoll_events_next 3 kernel_intr (snd (EPoll_register kernel_intr EPoll_init obj_a None)) events
     = (Some (Yield obj_a 1),
        \<lparr>fdmap = [5 \<mapsto> obj_a],
         calls = [Fileno obj_a, EpollRegister 5 EPOLLIN, EpollPoll, EpollPoll]\<rparr>,
        \<lparr>pending = [], ended = False\<rparr>)
   \<and> KQueue_events_next 3 kernel_intr (snd (KQueue_register kernel_intr KQueue_init obj_a)) events
     = (Some (Yield obj_a 1),
        \<lparr>fdmap = [5 \<mapsto> obj_a],
         calls = [Fileno obj_a,
                  KqueueControl (Some [\<lparr>ident = 5, kfilter = KQ_FILTER_READ,
                                         kflags = KQ_EV_ADD OR KQ_EV_ENABLE\<rparr>]) 0,
                  KqueueControl None 0, KqueueControl None 0]\<rparr>,
        \<lparr>pending = [], ended = False\<rparr>)"
  using C2_interrupted_poll_retried
    [where k = kernel_intr and g = events and h = events and n = 0 and fd = 5 and fl = 1
       and rest = "[]" and krest = "[]" and obj = obj_a
       and ev = "\<lparr>ident = 5, kfilter = KQ_FILTER_READ, kflags = 1\<rparr>"
       and self = "snd (EPoll_register kernel_intr EPoll_init obj_a None)"]
    C2_interrupted_poll_retried
    [where k = kernel_intr and g = events and h = events and n = 0 and fd = 5 and fl = 1
       and rest = "[]" and krest = "[]" and obj = obj_a
       and ev = "\<lparr>ident = 5, kfilter = KQ_FILTER_READ, kflags = 1\<rparr>"
       and self = "snd (KQueue_register kernel_intr KQueue_init obj_a)"]
  by (simp add: eval_defs numeral_3_eq_3)

text \<open>
  C3. A poll that raises anything but \<^verbatim>\<open>IOError\<close> with errno \<^verbatim>\<open>EINTR\<close>, and a fired
  descriptor with no entry in the registration map (\<^verbatim>\<open>KeyError\<close>), make \<^verbatim>\<open>next\<close> raise
  that exception to the caller at once: one poll, no retry, and the generator has
  ended, so every later \<^verbatim>\<open>next\<close> gives \<^verbatim>\<open>StopIteration\<close>. Both backends.
\<close>

theorem C3_other_errors_propagate:
  "(\<not> ended g \<longrightarrow> pending g = [] \<longrightarrow> epoll_poll k (calls self) = Inl e \<longrightarrow>
      e \<noteq> IOError EINTR \<longrightarrow>
      EPoll_events_next (Suc n) k self g
        = (Some (Raise e), log EpollPoll self, g\<lparr>pending := [], ended := True\<rparr>))
   \<and> (\<not> ended g \<longrightarrow> pending g = (fd, fl) # rest \<longrightarrow> fdmap self fd = None \<longrightarrow>
      EPoll_events_next (Suc n) k self g
        = (Some (Raise (KeyError fd)), self, g\<lparr>pending := [], ended := True\<rparr>))
   \<and> (ended g \<longrightarrow> EPoll_events_next (Suc n) k self g = (Some StopIteration, self, g))
   \<and> (\<not> ended h \<longrightarrow> pending h = [] \<longrightarrow> kqueue_control k (calls self) None 0 = Inl e \<longrightarrow>
      e \<noteq> IOError EINTR \<longrightarrow>
      KQueue_events_next (Suc n) k self h
        = (Some (Raise e), log (KqueueControl None 0) self, h\<lparr>pending := [], ended := True\<rparr>))
   \<and> (\<not> ended h \<longrightarrow> pending h = ev # krest \<longrightarrow> fdmap self (ident ev) = None \<longrightarrow>
      KQueue_events_next (Suc n) k self h
        = (Some (Raise (KeyError (ident ev))), self, h\<lparr>pending := [], ended := True\<rparr>))
   \<and> (ended h \<longrightarrow> KQueue_events_next (Suc n) k self h = (Some StopIteration, self, h))"
  by (simp add: propagates_iff get_item_def)

theorem C3_other_errors_propagate_witness:
  "EPoll_events_next 1 kernel_fail EPoll_init events
     = (Some (Raise (IOError 9)), \<lparr>fdmap = Map.empty, calls = [EpollPoll]\<rparr>,
        \<lparr>pending = [], ended = True\<rparr>)
   \<and> EPoll_events_next 1 kernel_fail EPoll_init \<lparr>pending = [(5, 1)], ended = False\<rparr>
     = (Some (Raise (KeyError 5)), EPoll_init, \<lparr>pending = [], ended = True\<rparr>)
   \<and> EPoll_events_next 1 kernel_fail EPoll_init \<lparr>pending = [], ended = True\<rparr>
     = (Some StopIteration, EPoll_init, \<lparr>pending = [], ended = True\<rparr>)
   \<and> KQueue_events_next 1 kernel_fail KQueue_init events
     = (Some (Raise (IOError 9)), \<lparr>fdmap = Map.empty, calls = [KqueueControl None 0]\<rparr>,
        \<lparr>pending = [], ended = True\<rparr>)
   \<and> KQueue_events_next 1 kernel_fail KQueue_init
        \<lparr>pending = [\<lparr>ident = 5, kfilter = KQ_FILTER_READ, kflags = 1\<rparr>], ended = False\<rparr>
     = (Some (Raise (KeyError 5)), KQueue_init, \<lparr>pending = [], ended = True\<rparr>)
   \<and> KQueue_events_next 1 kernel_fail KQueue_init \<lparr>pending = [], ended = True\<rparr>
     = (Some StopIteration, KQueue_init, \<lparr>pending = [], ended = True\<rparr>)"
  using C3_other_errors_propagate
    [where k = kernel_fail and self = EPoll_init and g = events and h = events and n = 0
       and e = "IOError 9"]
    C3_other_errors_propagate
    [where k = kernel_fail and self = EPoll_init and n = 0 and fd = 5 and fl = 1 and rest = "[]"
       and g = "\<lparr>pending = [(5, 1)], ended = False\<rparr>" and krest = "[]"
       and ev = "\<lparr>ident = 5, kfilter = KQ_FILTER_READ, kflags = 1\<rparr>"
       and h = "\<lparr>pending = [\<lparr>ident = 5, kfilter = KQ_FILTER_READ, kflags = 1\<rparr>], ended = False\<rparr>"]
    C3_other_errors_propagate
    [where k = kernel_fail and self = EPoll_init and n = 0
       and g = "\<lparr>pending = [], ended = True\<rparr>" and h = "\<lparr>pending = [], ended = True\<rparr>"]
  by (simp add: eval_defs kernel_fail_def EINTR_def)

lemma session_fdmap_origin:
  assumes reg: "\<And>self obj r. fdmap (snd (reg self obj r)) = (fdmap self)(fileno obj \<mapsto> obj)"
    and unreg: "\<And>self obj. fdmap (snd (unreg self obj)) = (fdmap self)(fileno obj := None)"
    and nxt: "\<And>n self g. fdmap (fst (snd (nxt n self g))) = fdmap self"
  shows "session reg unreg nxt self g acts = (outs, self', g') \<Longrightarrow> fdmap self' fd = Some obj \<Longrightarrow>
         fdmap self fd = Some obj \<or> (fileno obj = fd \<and> (\<exists>r. Register obj r \<in> set acts))"
proof (induction acts arbitrary: self g outs)
  case Nil
  then show ?case by simp
next
  case (Cons a acts)
  show ?case
  proof (cases a)
    case (Register obj' r)
    with Cons have "fdmap (snd (reg self obj' r)) fd = Some obj
        \<or> (fileno obj = fd \<and> (\<exists>r. Register obj r \<in> set acts))"
      by simp
    then show ?thesis using reg [of self obj' r] Register
      by (auto split: if_splits)
  next
    case (Unregister obj')
    with Cons have "fdmap (snd (unreg self obj')) fd = Some obj
        \<or> (fileno obj = fd \<and> (\<exists>r. Register obj r \<in> set acts))"
      by simp
    then show ?thesis using unreg [of self obj'] Unregister
      by (auto split: if_splits)
  next
    case (Next n)
    show ?thesis
    proof (cases "nxt n self g")
      case (fields out self1 g1)
      have same: "fdmap self1 = fdmap self"
        using nxt [of n self g] fields by simp
      show ?thesis
      proof (cases out)
        case None
        with Cons.prems Next fields same show ?thesis by auto
      next
        case (Some o1)
        obtain outs1 where rest: "session reg unreg nxt self1 g1 acts = (outs1, self', g')"
          using Cons.prems(1) Next fields Some by (auto split: prod.splits)
        from Cons.IH [OF rest Cons.prems(2)] same Next show ?thesis by auto
      qed
    qed
  qed
qed

lemma session_no_yield:
  assumes reg: "\<And>self obj r. fdmap (snd (reg self obj r)) = (fdmap self)(fileno obj \<mapsto> obj)"
    and unreg: "\<And>self obj. fdmap (snd (unreg self obj)) = (fdmap self)(fileno obj := None)"
    and nxt: "\<And>n self g. fdmap (fst (snd (nxt n self g))) = fdmap self"
    and yield: "\<And>n self g obj fl. fst (nxt n self g) = Some (Yield obj fl)
                  \<Longrightarrow> \<exists>fd. fdmap self fd = Some obj"
  shows "session reg unreg nxt self g acts = (outs, self', g') \<Longrightarrow>
         \<forall>fd. fdmap self fd \<noteq> Some obj \<Longrightarrow> \<forall>r. Register obj r \<notin> set acts \<Longrightarrow>
         Some (Yield obj fl) \<notin> set outs"
proof (induction acts arbitrary: self g outs)
  case Nil
  then show ?case by simp
next
  case (Cons a acts)
  show ?case
  proof (cases a)
    case (Register obj' r)
    have "obj' \<noteq> obj" using Cons.prems(3) Register by auto
    then have "\<forall>fd. fdmap (snd (reg self obj' r)) fd \<noteq> Some obj"
      using Cons.prems(2) reg [of self obj' r] by simp
    with Cons Register show ?thesis by simp
  next
    case (Unregister obj')
    have "\<forall>fd. fdmap (snd (unreg self obj')) fd \<noteq> Some obj"
      using Cons.prems(2) unreg [of self obj'] by simp
    with Cons Unregister show ?thesis by simp
  next
    case (Next n)
    show ?thesis
    proof (cases "nxt n self g")
      case (fields out self1 g1)
      have same: "fdmap self1 = fdmap self"
        using nxt [of n self g] fields by simp
      show ?thesis
      proof (cases out)
        case None
        with Cons.prems Next fields show ?thesis by auto
      next
        case (Some o1)
        obtain outs1 where rest: "session reg unreg nxt self1 g1 acts = (outs1, self', g')"
          and outs: "outs = Some o1 # outs1"
          using Cons.prems(1) Next fields Some by (auto split: prod.splits)
        have "o1 \<noteq> Yield obj fl"
          using yield [of n self g obj fl] fields Some Cons.prems(2) by auto
        moreover have "Some (Yield obj fl) \<notin> set outs1"
          using Cons.IH [OF rest] Cons.prems(2,3) same by simp
        ultimately show ?thesis using outs by simp
      qed
    qed
  qed
qed

lemma EPoll_session_no_yield:
  "EPoll_session k self g acts = (outs, self', g') \<Longrightarrow>
   \<forall>fd. fdmap self fd \<noteq> Some obj \<Longrightarrow> \<forall>r. Register obj r \<notin> set acts \<Longrightarrow>
   Some (Yield obj fl) \<notin> set outs"
  unfolding EPoll_session_def
  by (rule session_no_yield [where nxt = "\<lambda>n. EPoll_events_next n k"])
     (simp_all add: EPoll_register_fdmap EPoll_unregister_fdmap EPoll_next_fdmap EPoll_next_yield)

lemma KQueue_session_no_yield:
  "KQueue_session k self g acts = (outs, self', g') \<Longrightarrow>
   \<forall>fd. fdmap self fd \<noteq> Some obj \<Longrightarrow> \<forall>r. Register obj r \<notin> set acts \<Longrightarrow>
   Some (Yield obj fl) \<notin> set outs"
  using session_no_yield [where nxt = "\<lambda>n. KQueue_events_next n k"
     and reg = "\<lambda>self obj r. KQueue_register k self obj" and unreg = "KQueue_unregister k"
     and self = self and g = g and acts = acts and outs = outs and self' = self' and g' = g'
     and obj = obj and fl = fl]
  by (simp add: KQueue_session_def KQueue_register_fdmap KQueue_unregister_fdmap
        KQueue_next_fdmap KQueue_next_yield)

lemma EPoll_session_keyed:
  "EPoll_session k EPoll_init g acts = (outs, self', g') \<Longrightarrow> fdmap self' fd = Some obj \<Longrightarrow>
   fileno obj = fd \<and> (\<exists>r. Register obj r \<in> set acts)"
  unfolding EPoll_session_def
  using session_fdmap_origin [where nxt = "\<lambda>n. EPoll_events_next n k" and reg = "EPoll_register k"
     and unreg = "EPoll_unregister k" and self = EPoll_init and g = g and acts = acts and outs = outs
     and self' = self' and g' = g' and fd = fd and obj = obj]
  by (simp add: EPoll_register_fdmap EPoll_unregister_fdmap EPoll_next_fdmap EPoll_init_def)

lemma KQueue_session_keyed:
  "KQueue_session k KQueue_init g acts = (outs, self', g') \<Longrightarrow> fdmap self' fd = Some obj \<Longrightarrow>
   fileno obj = fd \<and> (\<exists>r. Register obj r \<in> set acts)"
  unfolding KQueue_session_def
  using session_fdmap_origin [where nxt = "\<lambda>n. KQueue_events_next n k"
     and reg = "\<lambda>self obj r. KQueue_register k self obj"
     and unreg = "KQueue_unregister k" and self = KQueue_init and g = g and acts = acts and outs = outs
     and self' = self' and g' = g' and fd = fd and obj = obj]
  by (simp add: KQueue_register_fdmap KQueue_unregister_fdmap KQueue_next_fdmap KQueue_init_def)


lemma EPoll_unregister_removes:
  assumes run: "EPoll_session k EPoll_init g0 acts = (outs, self1, g1)"
  shows "\<forall>fd. fdmap (snd (EPoll_unregister k self1 obj)) fd \<noteq> Some obj"
  using EPoll_session_keyed [OF run, of _ obj] by (auto simp: EPoll_unregister_fdmap)

lemma KQueue_unregister_removes:
  assumes run: "KQueue_session k KQueue_init g0 acts = (outs, self1, g1)"
  shows "\<forall>fd. fdmap (snd (KQueue_unregister k self1 obj)) fd \<noteq> Some obj"
  using KQueue_session_keyed [OF run, of _ obj] by (auto simp: KQueue_unregister_fdmap)

text \<open>
  C4. After any actions of a caller on a new instance, once \<^verbatim>\<open>unregister(obj)\<close> has
  returned, no later \<^verbatim>\<open>next\<close> on any generator of that instance yields \<open>obj\<close>, whatever
  the caller does afterwards short of registering \<open>obj\<close> again: also when another object
  on the same descriptor is registered and the descriptor fires. The same holds after
  \<^verbatim>\<open>register(obj)\<close> immediately followed by \<^verbatim>\<open>unregister(obj)\<close>, whatever the kernel
  answers. Both backends.
\<close>

theorem C4_unregistered_never_yielded:
  "(EPoll_session k EPoll_init gi pre = (outs_pre, self_pre, gp) \<longrightarrow>
      EPoll_unregister k self_pre obj = (Inr (), self_un) \<longrightarrow>
      EPoll_session k self_un g post = (outs_post, self_post, gq) \<longrightarrow>
      (\<forall>r. Register obj r \<notin> set post) \<longrightarrow>
      Some (Yield obj fl) \<notin> set outs_post)
   \<and> (EPoll_session k EPoll_init gi pre = (outs_pre, self_pre, gp) \<longrightarrow>
      EPoll_session k (snd (EPoll_unregister k (snd (EPoll_register k self_pre obj ra)) obj)) g post
        = (outs_post, self_post, gq) \<longrightarrow>
      (\<forall>r. Register obj r \<notin> set post) \<longrightarrow>
      Some (Yield obj fl) \<notin> set outs_post)
   \<and> (KQueue_session k KQueue_init hi kpre = (kouts_pre, kself_pre, hp) \<longrightarrow>
      KQueue_unregister k kself_pre obj = (Inr (), kself_un) \<longrightarrow>
      KQueue_session k kself_un h kpost = (kouts_post, kself_post, hq) \<longrightarrow>
      (\<forall>r. Register obj r \<notin> set kpost) \<longrightarrow>
      Some (Yield obj fl) \<notin> set kouts_post)
   \<and> (KQueue_session k KQueue_init hi kpre = (kouts_pre, kself_pre, hp) \<longrightarrow>
      KQueue_session k (snd (KQueue_unregister k (snd (KQueue_register k kself_pre obj)) obj)) h kpost
        = (kouts_post, kself_post, hq) \<longrightarrow>
      (\<forall>r. Register obj r \<notin> set kpost) \<longrightarrow>
      Some (Yield obj fl) \<notin> set kouts_post)"
proof (intro conjI impI)
  assume run: "EPoll_session k EPoll_init gi pre = (outs_pre, self_pre, gp)"
    and un: "EPoll_unregister k self_pre obj = (Inr (), self_un)"
    and rest: "EPoll_session k self_un g post = (outs_post, self_post, gq)"
    and noreg: "\<forall>r. Register obj r \<notin> set post"
  have "\<forall>fd. fdmap self_un fd \<noteq> Some obj"
    using EPoll_unregister_removes [OF run, of obj] un by simp
  then show "Some (Yield obj fl) \<notin> set outs_post"
    using EPoll_session_no_yield [OF rest _ noreg] by simp
next
  assume run: "EPoll_session k EPoll_init gi pre = (outs_pre, self_pre, gp)"
    and rest: "EPoll_session k (snd (EPoll_unregister k (snd (EPoll_register k self_pre obj ra)) obj))
                 g post = (outs_post, self_post, gq)"
    and noreg: "\<forall>r. Register obj r \<notin> set post"
  have "\<forall>fd. fdmap (snd (EPoll_unregister k (snd (EPoll_register k self_pre obj ra)) obj)) fd \<noteq> Some obj"
    using EPoll_session_keyed [OF run, of _ obj]
    by (auto simp: EPoll_unregister_fdmap EPoll_register_fdmap)
  then show "Some (Yield obj fl) \<notin> set outs_post"
    using EPoll_session_no_yield [OF rest _ noreg] by simp
next
  assume run: "KQueue_session k KQueue_init hi kpre = (kouts_pre, kself_pre, hp)"
    and un: "KQueue_unregister k kself_pre obj = (Inr (), kself_un)"
    and rest: "KQueue_session k kself_un h kpost = (kouts_post, kself_post, hq)"
    and noreg: "\<forall>r. Register obj r \<notin> set kpost"
  have "\<forall>fd. fdmap kself_un fd \<noteq> Some obj"
    using KQueue_unregister_removes [OF run, of obj] un by simp
  then show "Some (Yield obj fl) \<notin> set kouts_post"
    using KQueue_session_no_yield [OF rest _ noreg] by simp
next
  assume run: "KQueue_session k KQueue_init hi kpre = (kouts_pre, kself_pre, hp)"
    and rest: "KQueue_session k (snd (KQueue_unregister k (snd (KQueue_register k kself_pre obj)) obj))
                 h kpost = (kouts_post, kself_post, hq)"
    and noreg: "\<forall>r. Register obj r \<notin> set kpost"
  have "\<forall>fd. fdmap (snd (KQueue_unregister k (snd (KQueue_register k kself_pre obj)) obj)) fd \<noteq> Some obj"
    using KQueue_session_keyed [OF run, of _ obj]
    by (auto simp: KQueue_unregister_fdmap KQueue_register_fdmap)
  then show "Some (Yield obj fl) \<notin> set kouts_post"
    using KQueue_session_no_yield [OF rest _ noreg] by simp
qed

theorem C4_unregistered_never_yielded_witness:
  "fst (EPoll_session kernel_intr
          (snd (EPoll_unregister kernel_intr
             (fst (snd (EPoll_session kernel_intr EPoll_init events
                [Register obj_a None, Register obj_c None])))
             obj_a))
          events [Register obj_b None, Next 3, Next 2])
     = [Some (Yield obj_b 1), Some (Yield obj_b 1)]
   \<and> Some (Yield obj_a 1) \<notin> set (fst (EPoll_session kernel_intr
          (snd (EPoll_unregister kernel_intr
             (fst (snd (EPoll_session kernel_intr EPoll_init events
                [Register obj_a None, Register obj_c None])))
             obj_a))
          events [Register obj_b None, Next 3, Next 2]))
   \<and> Some (Yield obj_a 1) \<notin> set (fst (KQueue_session kernel_intr
          (snd (KQueue_unregister kernel_intr
             (fst (snd (KQueue_session kernel_intr KQueue_init events
                [Register obj_a (), Register obj_c ()])))
             obj_a))
          events [Register obj_b (), Next 3, Next 2]))"
  using C4_unregistered_never_yielded
    [where k = kernel_intr and gi = events and g = events and obj = obj_a and fl = 1
       and pre = "[Register obj_a None, Register obj_c None]"
       and post = "[Register obj_b None, Next 3, Next 2]"
       and outs_pre = "[]" and gp = events
       and self_pre = "fst (snd (EPoll_session kernel_intr EPoll_init events
                [Register obj_a None, Register obj_c None]))"
       and self_un = "snd (EPoll_unregister kernel_intr
             (fst (snd (EPoll_session kernel_intr EPoll_init events
                [Register obj_a None, Register obj_c None])))
             obj_a)"
       and outs_post = "fst (EPoll_session kernel_intr
          (snd (EPoll_unregister kernel_intr
             (fst (snd (EPoll_session kernel_intr EPoll_init events
                [Register obj_a None, Register obj_c None])))
             obj_a))
          events [Register obj_b None, Next 3, Next 2])"
       and self_post = "fst (snd (EPoll_session kernel_intr
          (snd (EPoll_unregister kernel_intr
             (fst (snd (EPoll_session kernel_intr EPoll_init events
                [Register obj_a None, Register obj_c None])))
             obj_a))
          events [Register obj_b None, Next 3, Next 2]))"
       and gq = "snd (snd (EPoll_session kernel_intr
          (snd (EPoll_unregister kernel_intr
             (fst (snd (EPoll_session kernel_intr EPoll_init events
                [Register obj_a None, Register obj_c None])))
             obj_a))
          events [Register obj_b None, Next 3, Next 2]))"
       and hi = events and h = events
       and kpre = "[Register obj_a (), Register obj_c ()]"
       and kpost = "[Register obj_b (), Next 3, Next 2]"
       and kouts_pre = "[]" and hp = events
       and kself_pre = "fst (snd (KQueue_session kernel_intr KQueue_init events
                [Register obj_a (), Register obj_c ()]))"
       and kself_un = "snd (KQueue_unregister kernel_intr
             (fst (snd (KQueue_session kernel_intr KQueue_init events
                [Register obj_a (), Register obj_c ()])))
             obj_a)"
       and kouts_post = "fst (KQueue_session kernel_intr
          (snd (KQueue_unregister kernel_intr
             (fst (snd (KQueue_session kernel_intr KQueue_init events
                [Register obj_a (), Register obj_c ()])))
             obj_a))
          events [Register obj_b (), Next 3, Next 2])"
       and kself_post = "fst (snd (KQueue_session kernel_intr
          (snd (KQueue_unregister kernel_intr
             (fst (snd (KQueue_session kernel_intr KQueue_init events
                [Register obj_a (), Register obj_c ()])))
             obj_a))
          events [Register obj_b (), Next 3, Next 2]))"
       and hq = "snd (snd (KQueue_session kernel_intr
          (snd (KQueue_unregister kernel_intr
             (fst (snd (KQueue_session kernel_intr KQueue_init events
                [Register obj_a (), Register obj_c ()])))
             obj_a))
          events [Register obj_b (), Next 3, Next 2]))"]
  by (simp add: eval_defs numeral_3_eq_3 numeral_2_eq_2 EPOLLIN_def EINTR_def)

text \<open>
  C6, as stated, fails: \<^verbatim>\<open>unregister\<close> looks up the descriptor, not the object. With
  \<open>obj_a\<close> registered on descriptor 5, \<^verbatim>\<open>unregister(obj_b)\<close> for the never registered
  \<open>obj_b\<close>, which reports descriptor 5 too, returns normally, deletes the entry of
  \<open>obj_a\<close> and issues the kernel's delete call. Both backends.
\<close>

theorem C6_unregister_unregistered_counterexample:
  "obj_b \<noteq> obj_a
   \<and> EPoll_unregister kernel_intr (snd (EPoll_register kernel_intr EPoll_init obj_a None)) obj_b
     = (Inr (), \<lparr>fdmap = Map.empty,
                 calls = [Fileno obj_a, EpollRegister 5 EPOLLIN, Fileno obj_b, EpollUnregister 5]\<rparr>)
   \<and> KQueue_unregister kernel_intr (snd (KQueue_register kernel_intr KQueue_init obj_a)) obj_b
     = (Inr (), \<lparr>fdmap = Map.empty,
                 calls = [Fileno obj_a,
                          KqueueControl (Some [\<lparr>ident = 5, kfilter = KQ_FILTER_READ,
                                                 kflags = KQ_EV_ADD OR KQ_EV_ENABLE\<rparr>]) 0,
                          Fileno obj_b,
                          KqueueControl (Some [\<lparr>ident = 5, kfilter = KQ_FILTER_READ,
                                                 kflags = KQ_EV_DELETE\<rparr>]) 0]\<rparr>)"
  by (simp add: eval_defs)

text \<open>
  C6, amended. \<^verbatim>\<open>unregister(obj)\<close> raises the \<^verbatim>\<open>KeyError\<close> of the deletion from the
  registration map exactly when the descriptor of \<open>obj\<close> is not a key of the map; then
  the accessor call is the only call made (no delete call reaches the kernel) and the
  map is unchanged. When the descriptor is a key, whoever registered it, the entry is
  deleted, the delete call is issued, and \<^verbatim>\<open>unregister\<close> returns when that call returns
  and raises what that call raises. The descriptor is not a key on an instance on which
  no object reporting it was ever registered, and right after any \<^verbatim>\<open>unregister\<close> of an
  object reporting it. Both backends.
\<close>

theorem C6_unregister_missing_key:
  "(fdmap self (fileno obj) = None \<longrightarrow>
      EPoll_unregister k self obj = (Inl (KeyError (fileno obj)), log (Fileno obj) self)
      \<and> KQueue_unregister k self obj = (Inl (KeyError (fileno obj)), log (Fileno obj) self))
   \<and> (fdmap self (fileno obj) = Some other \<longrightarrow>
      EPoll_unregister k self obj
        = (epoll_unregister k (calls self @ [Fileno obj]) (fileno obj),
           self\<lparr>fdmap := (fdmap self)(fileno obj := None),
                calls := calls self @ [Fileno obj, EpollUnregister (fileno obj)]\<rparr>)
      \<and> KQueue_unregister k self obj
        = ((case kqueue_control k (calls self @ [Fileno obj])
                  (Some [\<lparr>ident = fileno obj, kfilter = KQ_FILTER_READ,
                          kflags = KQ_EV_DELETE\<rparr>]) 0 of
              Inl e \<Rightarrow> Inl e
            | Inr evs \<Rightarrow> Inr ()),
           self\<lparr>fdmap := (fdmap self)(fileno obj := None),
                calls := calls self @ [Fileno obj,
                  KqueueControl (Some [\<lparr>ident = fileno obj, kfilter = KQ_FILTER_READ,
                                         kflags = KQ_EV_DELETE\<rparr>]) 0]\<rparr>))
   \<and> (EPoll_session k EPoll_init g acts = (outs, self', g') \<longrightarrow>
      (\<forall>ob r. Register ob r \<in> set acts \<longrightarrow> fileno ob \<noteq> fileno obj) \<longrightarrow>
      fdmap self' (fileno obj) = None)
   \<and> (KQueue_session k KQueue_init h kacts = (kouts, kself', h') \<longrightarrow>
      (\<forall>ob r. Register ob r \<in> set kacts \<longrightarrow> fileno ob \<noteq> fileno obj) \<longrightarrow>
      fdmap kself' (fileno obj) = None)
   \<and> fdmap (snd (EPoll_unregister k self obj)) (fileno obj) = None
   \<and> fdmap (snd (KQueue_unregister k self obj)) (fileno obj) = None"
proof (intro conjI impI)
  assume run: "EPoll_session k EPoll_init g acts = (outs, self', g')"
    and none: "\<forall>ob r. Register ob r \<in> set acts \<longrightarrow> fileno ob \<noteq> fileno obj"
  show "fdmap self' (fileno obj) = None"
  proof (cases "fdmap self' (fileno obj)")
    case (Some ob)
    from EPoll_session_keyed [OF run Some] none show ?thesis by auto
  qed simp
next
  assume run: "KQueue_session k KQueue_init h kacts = (kouts, kself', h')"
    and none: "\<forall>ob r. Register ob r \<in> set kacts \<longrightarrow> fileno ob \<noteq> fileno obj"
  show "fdmap kself' (fileno obj) = None"
  proof (cases "fdmap kself' (fileno obj)")
    case (Some ob)
    from KQueue_session_keyed [OF run Some] none show ?thesis by auto
  qed simp
next
  show "fdmap (snd (EPoll_unregister k self obj)) (fileno obj) = None"
    by (simp add: EPoll_unregister_fdmap)
next
  show "fdmap (snd (KQueue_unregister k self obj)) (fileno obj) = None"
    by (simp add: KQueue_unregister_fdmap)
qed (simp_all add: EPoll_unregister_def KQueue_unregister_def del_item_def log_def Let_def
       discard_def)

theorem C6_unregister_missing_key_witness:
  "EPoll_unregister kernel_intr (snd (EPoll_register kernel_intr EPoll_init obj_a None)) obj_c
     = (Inl (KeyError 7),
        \<lparr>fdmap = [5 \<mapsto> obj_a], calls = [Fileno obj_a, EpollRegister 5 EPOLLIN, Fileno obj_c]\<rparr>)
   \<and> KQueue_unregister kernel_intr (snd (KQueue_register kernel_intr KQueue_init obj_a)) obj_c
     = (Inl (KeyError 7),
        \<lparr>fdmap = [5 \<mapsto> obj_a],
         calls = [Fileno obj_a,
                  KqueueControl (Some [\<lparr>ident = 5, kfilter = KQ_FILTER_READ,
                                         kflags = KQ_EV_ADD OR KQ_EV_ENABLE\<rparr>]) 0,
                  Fileno obj_c]\<rparr>)
   \<and> fst (EPoll_unregister kernel_intr
        (snd (EPoll_unregister kernel_intr (snd (EPoll_register kernel_intr EPoll_init obj_a None)) obj_a))
        obj_a) = Inl (KeyError 5)
   \<and> fdmap (fst (snd (EPoll_session kernel_intr EPoll_init events
        [Register obj_a None, Unregister obj_a, Next 3]))) 7 = None
   \<and> EPoll_unregister kernel_intr (snd (EPoll_register kernel_intr EPoll_init obj_a None)) obj_a
     = (Inr (), \<lparr>fdmap = Map.empty,
                 calls = [Fileno obj_a, EpollRegister 5 EPOLLIN, Fileno obj_a, EpollUnregister 5]\<rparr>)
   \<and> EPoll_unregister kernel_nodel (snd (EPoll_register kernel_nodel EPoll_init obj_a None)) obj_b
     = (Inl (IOError 2),
        \<lparr>fdmap = Map.empty,
         calls = [Fileno obj_a, EpollRegister 5 EPOLLIN, Fileno obj_b, EpollUnregister 5]\<rparr>)
   \<and> KQueue_unregister kernel_nodel (snd (KQueue_register kernel_nodel KQueue_init obj_a)) obj_b
     = (Inl (IOError 2),
        \<lparr>fdmap = Map.empty,
         calls = [Fileno obj_a,
                  KqueueControl (Some [\<lparr>ident = 5, kfilter = KQ_FILTER_READ,
                                         kflags = KQ_EV_ADD OR KQ_EV_ENABLE\<rparr>]) 0,
                  Fileno obj_b,
                  KqueueControl (Some [\<lparr>ident = 5, kfilter = KQ_FILTER_READ,
                                         kflags = KQ_EV_DELETE\<rparr>]) 0]\<rparr>)"
  using C6_unregister_missing_key
    [where k = kernel_intr and obj = obj_a and other = obj_a
       and self = "snd (EPoll_register kernel_intr EPoll_init obj_a None)"]
    C6_unregister_missing_key
    [where k = kernel_nodel and obj = obj_b and other = obj_a
       and self = "snd (EPoll_register kernel_nodel EPoll_init obj_a None)"]
    C6_unregister_missing_key
    [where k = kernel_nodel and obj = obj_b and other = obj_a
       and self = "snd (KQueue_register kernel_nodel KQueue_init obj_a)"]
    C6_unregister_missing_key
    [where k = kernel_intr and obj = obj_c
       and self = "snd (EPoll_register kernel_intr EPoll_init obj_a None)"
       and g = events and acts = "[Register obj_a None, Unregister obj_a, Next 3]"
       and outs = "fst (EPoll_session kernel_intr EPoll_init events
                          [Register obj_a None, Unregister obj_a, Next 3])"
       and self' = "fst (snd (EPoll_session kernel_intr EPoll_init events
                          [Register obj_a None, Unregister obj_a, Next 3]))"
       and g' = "snd (snd (EPoll_session kernel_intr EPoll_init events
                          [Register obj_a None, Unregister obj_a, Next 3]))"]
    C6_unregister_missing_key
    [where k = kernel_intr and obj = obj_c
       and self = "snd (KQueue_register kernel_intr KQueue_init obj_a)"]
    C6_unregister_missing_key
    [where k = kernel_intr and obj = obj_a
       and self = "snd (EPoll_unregister kernel_intr (snd (EPoll_register kernel_intr EPoll_init obj_a None)) obj_a)"]
  by (simp add: eval_defs kernel_nodel_def numeral_3_eq_3 KQ_EV_DELETE_def KQ_EV_ADD_def
        KQ_EV_ENABLE_def)

lemma fileno_calls_append: "fileno_calls (xs @ ys) = fileno_calls xs @ fileno_calls ys"
  by (induction xs) (auto split: call.splits)

text \<open>
  C9. Each of \<^verbatim>\<open>register\<close> and \<^verbatim>\<open>unregister\<close>, in both backends, calls \<^verbatim>\<open>obj.fileno()\<close>
  exactly once, whether it returns or raises, and the descriptor it got is both the key
  of the map update and the descriptor of the kernel call.
\<close>

theorem C9_fileno_called_once:
  "fileno_calls (calls (snd (EPoll_register k self obj r))) = fileno_calls (calls self) @ [obj]
   \<and> snd (EPoll_register k self obj r)
     = self\<lparr>fdmap := (fdmap self)(fileno obj \<mapsto> obj),
            calls := calls self @ [Fileno obj,
              EpollRegister (fileno obj) (case r of None \<Rightarrow> EPOLLIN | Some f \<Rightarrow> f)]\<rparr>
   \<and> fileno_calls (calls (snd (EPoll_unregister k self obj))) = fileno_calls (calls self) @ [obj]
   \<and> snd (EPoll_unregister k self obj)
     = (case fdmap self (fileno obj) of
          None \<Rightarrow> self\<lparr>calls := calls self @ [Fileno obj]\<rparr>
        | Some _ \<Rightarrow> self\<lparr>fdmap := (fdmap self)(fileno obj := None),
                          calls := calls self @ [Fileno obj, EpollUnregister (fileno obj)]\<rparr>)
   \<and> fileno_calls (calls (snd (KQueue_register k self obj))) = fileno_calls (calls self) @ [obj]
   \<and> snd (KQueue_register k self obj)
     = self\<lparr>fdmap := (fdmap self)(fileno obj \<mapsto> obj),
            calls := calls self @ [Fileno obj,
              KqueueControl (Some [\<lparr>ident = fileno obj, kfilter = KQ_FILTER_READ,
                                     kflags = KQ_EV_ADD OR KQ_EV_ENABLE\<rparr>]) 0]\<rparr>
   \<and> fileno_calls (calls (snd (KQueue_unregister k self obj))) = fileno_calls (calls self) @ [obj]
   \<and> snd (KQueue_unregister k self obj)
     = (case fdmap self (fileno obj) of
          None \<Rightarrow> self\<lparr>calls := calls self @ [Fileno obj]\<rparr>
        | Some _ \<Rightarrow> self\<lparr>fdmap := (fdmap self)(fileno obj := None),
                          calls := calls self @ [Fileno obj,
                            KqueueControl (Some [\<lparr>ident = fileno obj, kfilter = KQ_FILTER_READ,
                                                   kflags = KQ_EV_DELETE\<rparr>]) 0]\<rparr>)"
  by (simp add: EPoll_register_def EPoll_unregister_def KQueue_register_def KQueue_unregister_def
        del_item_def log_def Let_def fileno_calls_append split: option.splits)

lemma session_invariant:
  assumes reg: "\<And>self obj r. I self \<Longrightarrow> I (snd (reg self obj r))"
    and unreg: "\<And>self obj. I self \<Longrightarrow> I (snd (unreg self obj))"
    and nxt: "\<And>n self g. I self \<Longrightarrow> I (fst (snd (nxt n self g)))"
  shows "I self \<Longrightarrow> I (fst (snd (session reg unreg nxt self g acts)))"
proof (induction acts arbitrary: self g)
  case Nil
  then show ?case by simp
next
  case (Cons a acts)
  show ?case
  proof (cases a)
    case (Register obj r)
    with Cons reg show ?thesis by simp
  next
    case (Unregister obj)
    with Cons unreg show ?thesis by simp
  next
    case (Next n)
    show ?thesis
    proof (cases "nxt n self g")
      case (fields out self1 g1)
      have I1: "I self1" using nxt [OF Cons.prems, of n g] fields by simp
      show ?thesis
      proof (cases out)
        case None
        with Next fields I1 show ?thesis by simp
      next
        case (Some o1)
        with Next fields Cons.IH [OF I1, of g1] show ?thesis
          by (cases "session reg unreg nxt self1 g1 acts") auto
      qed
    qed
  qed
qed

lemma KQueue_next_calls:
  "\<exists>m. calls (fst (snd (KQueue_events_next n k self g)))
         = calls self @ replicate m (KqueueControl None 0)"
proof (induction n arbitrary: self g)
  case 0
  show ?case by (rule exI [of _ 0]) simp
next
  case (Suc n)
  have same: "\<And>g'. \<exists>m. calls (fst (snd (KQueue_events_next n k self g')))
         = calls self @ replicate m (KqueueControl None 0)"
    by (rule Suc.IH)
  have step: "\<And>g'. \<exists>m. calls (fst (snd (KQueue_events_next n k (log (KqueueControl None 0) self) g')))
         = calls self @ replicate m (KqueueControl None 0)"
  proof -
    fix g'
    from Suc.IH [of "log (KqueueControl None 0) self" g'] obtain m where
      "calls (fst (snd (KQueue_events_next n k (log (KqueueControl None 0) self) g')))
         = calls (log (KqueueControl None 0) self) @ replicate m (KqueueControl None 0)" ..
    then have "calls (fst (snd (KQueue_events_next n k (log (KqueueControl None 0) self) g')))
         = calls self @ replicate (Suc m) (KqueueControl None 0)"
      by (simp add: calls_log)
    then show "\<exists>m. calls (fst (snd (KQueue_events_next n k (log (KqueueControl None 0) self) g')))
         = calls self @ replicate m (KqueueControl None 0)" ..
  qed
  have zero: "\<exists>m. calls self = calls self @ replicate m (KqueueControl None 0)"
    by (rule exI [of _ 0]) simp
  have one: "\<exists>m. calls (log (KqueueControl None 0) self) = calls self @ replicate m (KqueueControl None 0)"
    by (rule exI [of _ 1]) (simp add: calls_log)
  show ?case
    using same step zero one
    by (simp split: list.splits sum.splits)
qed

lemma KQueue_next_no_close:
  "KqueueClose \<notin> set (calls self) \<Longrightarrow>
   KqueueClose \<notin> set (calls (fst (snd (KQueue_events_next n k self g))))"
  using KQueue_next_calls [of n k self g] by auto

lemma KQueue_next_live:
  "\<not> ended g \<Longrightarrow> fst (KQueue_events_next n k self g) \<noteq> Some StopIteration
     \<and> (ended (snd (snd (KQueue_events_next n k self g)))
          \<longrightarrow> (\<exists>e. fst (KQueue_events_next n k self g) = Some (Raise e)))"
  by (induction n arbitrary: self g) (auto split: list.splits sum.splits)

text \<open>
  C7. \<^verbatim>\<open>self.poller.close()\<close> at the end of \<^verbatim>\<open>KQueue.events\<close> is never called: not by any
  call of \<^verbatim>\<open>next\<close> (whether it yields, raises or goes on for ever), so not in any run of
  a caller on a new instance. A generator that has not ended never gives
  \<^verbatim>\<open>StopIteration\<close>, and it ends only by raising.
\<close>

theorem C7_close_never_called:
  "KqueueClose \<notin> set (calls (fst (snd (KQueue_session k KQueue_init g acts))))
   \<and> (KqueueClose \<notin> set (calls self) \<longrightarrow>
        KqueueClose \<notin> set (calls (fst (snd (KQueue_events_next n k self g)))))
   \<and> (\<not> ended g \<longrightarrow> fst (KQueue_events_next n k self g) \<noteq> Some StopIteration)
   \<and> (\<not> ended g \<longrightarrow> ended (snd (snd (KQueue_events_next n k self g))) \<longrightarrow>
        (\<exists>e. fst (KQueue_events_next n k self g) = Some (Raise e)))"
proof (intro conjI impI)
  show "KqueueClose \<notin> set (calls (fst (snd (KQueue_session k KQueue_init g acts))))"
    unfolding KQueue_session_def
    by (rule session_invariant [where I = "\<lambda>s. KqueueClose \<notin> set (calls s)"])
       (simp_all add: KQueue_register_def KQueue_unregister_def KQueue_init_def log_def Let_def
          KQueue_next_no_close split: sum.splits)
qed (simp_all add: KQueue_next_no_close KQueue_next_live)


theorem C7_close_never_called_witness:
  "KqueueClose \<notin> set (calls (fst (snd (KQueue_events_next 3 kernel_fail KQueue_init events))))
   \<and> KQueue_events_next 3 kernel_fail KQueue_init events
     = (Some (Raise (IOError 9)), \<lparr>fdmap = Map.empty, calls = [KqueueControl None 0]\<rparr>,
        \<lparr>pending = [], ended = True\<rparr>)"
  using C7_close_never_called
    [where k = kernel_fail and self = KQueue_init and g = events and n = 3 and acts = "[]"]
  by (simp add: eval_defs kernel_fail_def EINTR_def numeral_3_eq_3)

lemma capped_nil:
  assumes cap: "\<forall>h cl m evs. kqueue_control k h cl m = Inr evs \<longrightarrow> int (length evs) \<le> m"
    and r: "kqueue_control k h None 0 = Inr evs"
  shows "evs = []"
  using cap r by fastforce

text \<open>
  C5. Every poll of \<^verbatim>\<open>KQueue.events()\<close> is \<^verbatim>\<open>control(None, max_events=0)\<close>. On a kernel
  that returns at most \<^verbatim>\<open>max_events\<close> events, a new generator therefore never yields:
  each poll returns the empty list and the loop polls again.
\<close>

theorem C5_zero_cap_never_yields:
  assumes cap: "\<forall>h cl m evs. kqueue_control k h cl m = Inr evs \<longrightarrow> int (length evs) \<le> m"
    and fresh: "pending g = []"
  shows "fst (KQueue_events_next n k self g) \<noteq> Some (Yield obj fl)
         \<and> (\<exists>m. calls (fst (snd (KQueue_events_next n k self g)))
                 = calls self @ replicate m (KqueueControl None 0))"
proof
  from fresh show "fst (KQueue_events_next n k self g) \<noteq> Some (Yield obj fl)"
  proof (induction n arbitrary: self g)
    case 0
    then show ?case by simp
  next
    case (Suc n)
    show ?case
    proof (cases "kqueue_control k (calls self) None 0")
      case (Inl e)
      with Suc show ?thesis by simp
    next
      case (Inr evs)
      then have "evs = []" by (rule capped_nil [OF cap])
      with Inr Suc show ?thesis by simp
    qed
  qed
  show "\<exists>m. calls (fst (snd (KQueue_events_next n k self g)))
                 = calls self @ replicate m (KqueueControl None 0)"
    by (rule KQueue_next_calls)
qed

theorem C5_zero_cap_never_yields_witness:
  "KQueue_events_next 3 kernel_capped (snd (KQueue_register kernel_capped KQueue_init obj_a)) events
     = (None,
        \<lparr>fdmap = [5 \<mapsto> obj_a],
         calls = [Fileno obj_a,
                  KqueueControl (Some [\<lparr>ident = 5, kfilter = KQ_FILTER_READ,
                                         kflags = KQ_EV_ADD OR KQ_EV_ENABLE\<rparr>]) 0,
                  KqueueControl None 0, KqueueControl None 0, KqueueControl None 0]\<rparr>,
        \<lparr>pending = [], ended = False\<rparr>)
   \<and> fst (KQueue_events_next 3 kernel_capped
            (snd (KQueue_register kernel_capped KQueue_init obj_a)) events)
       \<noteq> Some (Yield obj_a 1)
   \<and> kqueue_control kernel_capped [] None 1 = Inr [\<lparr>ident = 5, kfilter = KQ_FILTER_READ, kflags = 1\<rparr>]"
proof -
  have cap: "\<forall>h cl m evs. kqueue_control kernel_capped h cl m = Inr evs \<longrightarrow> int (length evs) \<le> m"
    by (auto simp: kernel_capped_def split: if_splits)
  have fresh: "pending (events :: kevent gen) = []"
    by (simp add: events_def)
  from C5_zero_cap_never_yields [OF cap fresh, of 3 "snd (KQueue_register kernel_capped KQueue_init obj_a)" obj_a 1]
  show ?thesis
    by (simp add: KQueue_register_def KQueue_init_def log_def Let_def kernel_capped_def obj_a_def
          events_def numeral_3_eq_3)
qed

lemma occurrences_short: "length s < length sub \<Longrightarrow> occurrences sub s = 0"
proof (induction s)
  case Nil
  then show ?case by auto
next
  case (Cons x s)
  then have "take (length sub) (x # s) \<noteq> sub"
    by (metis length_take min.strict_order_iff nat_neq_iff)
  with Cons show ?case by simp
qed

lemma occurrences_skip:
  "c \<notin> set q \<Longrightarrow> occurrences (c # p) (q @ t) = occurrences (c # p) t"
  by (induction q) auto

lemma py_count_occurrences:
  "sub = c # p \<Longrightarrow> c \<notin> set p \<Longrightarrow> py_count s sub = occurrences sub s"
proof (induction s sub rule: py_count.induct)
  case (1 s sub)
  show ?case
  proof (cases "length s < length sub")
    case True
    then show ?thesis
      by (subst py_count.simps) (simp add: "1.prems" occurrences_short)
  next
    case long: False
    show ?thesis
    proof (cases "take (length sub) s = sub")
      case True
      then have s: "s = c # (p @ drop (length sub) s)"
        using "1.prems"(1) by (metis append_Cons append_take_drop_id)
      have "py_count s sub = 1 + occurrences sub (drop (length sub) s)"
        using "1.IH"(1) [OF _ long True "1.prems"] "1.prems"(1) long True
        by (subst py_count.simps) simp
      also have "\<dots> = 1 + occurrences sub (p @ drop (length sub) s)"
        using occurrences_skip [OF "1.prems"(2), of p "drop (length sub) s"] "1.prems"(1) by simp
      also have "\<dots> = occurrences sub s"
        using True by (subst (2) s) (simp add: "1.prems"(1))
      finally show ?thesis .
    next
      case False
      from long "1.prems"(1) obtain x s' where s: "s = x # s'"
        by (cases s) auto
      have "py_count s sub = occurrences sub (tl s)"
        using "1.IH"(2) [OF _ long False "1.prems"] "1.prems"(1) long False
        by (subst py_count.simps) simp
      also have "\<dots> = occurrences sub s"
        using False s by simp
      finally show ?thesis .
    qed
  qed
qed

text \<open>
  C10. When \<^verbatim>\<open>/proc/cpuinfo\<close> exists (and is read), \<^verbatim>\<open>cpu_count\<close> returns the number of
  occurrences of a newline followed by \<^verbatim>\<open>bogomips\<close> in its contents; when the file does
  not exist it returns 2 and raises nothing.
\<close>

theorem C10_cpu_count:
  "(path_exists fs ''/proc/cpuinfo'' \<longrightarrow> open_read fs ''/proc/cpuinfo'' = Inr content \<longrightarrow>
      cpu_count fs = Inr (int (occurrences (CHR 0x0A # ''bogomips'') content)))
   \<and> (\<not> path_exists fs ''/proc/cpuinfo'' \<longrightarrow> cpu_count fs = Inr 2)"
  by (simp add: cpu_count_def py_count_occurrences [where c = "CHR 0x0A" and p = "''bogomips''"])


theorem C10_cpu_count_witness:
  "cpu_count fs_linux = Inr 3 \<and> cpu_count fs_other = Inr 2"
  using C10_cpu_count [of fs_linux cpuinfo_text] C10_cpu_count [of fs_other]
  by (simp add: fs_linux_def fs_other_def cpuinfo_text_def)

end
